theory Spec2Isabelle
  imports Main "HOL-Library.Multiset"
begin

section \<open>Prefix-tree route matching (build-trie.ts)\<close>

text \<open>
  The development embeds \<^verbatim>\<open>src/common/utils/match-route/build-trie.ts\<close>: the class
  \<^verbatim>\<open>PrefixTree\<close> with \<^verbatim>\<open>find\<close> and \<^verbatim>\<open>add\<close>, the helpers \<^verbatim>\<open>takeWhile\<close> and
  \<^verbatim>\<open>expandToken\<close>, and the two entry points \<^verbatim>\<open>buildTrie\<close> and \<^verbatim>\<open>matchRoute\<close>.

  Two collaborators are imported by the source and are not part of it: the template
  parser \<^verbatim>\<open>parsePath\<close> of path-to-regexp and the per-route matcher
  \<^verbatim>\<open>execRouteMatching\<close>. Both are parameters of the model (\<open>parsePath\<close>, \<open>exec\<close>),
  so every theorem holds for whatever total function stands behind them.

  The dictionary \<^verbatim>\<open>prefixes\<close> of a tree is a map from segment strings to nodes.
  The map has own properties only. The source keeps the dictionary in a plain object
  \<^verbatim>\<open>{}\<close>, and \<^verbatim>\<open>this.prefixes[k]\<close> also finds what every object inherits from
  \<^verbatim>\<open>Object.prototype\<close>: for a segment \<open>k\<close> of \<open>inheritedNames\<close> that has no own
  entry the source reads, and \<^verbatim>\<open>add\<close> writes, an object shared by all trees. That
  case is outside the model. The functions \<open>find_path\<close>, \<open>add\<close> and \<open>descend\<close>
  are the source's wherever no segment of \<open>inheritedNames\<close> is inserted or looked up
  without an own entry, and every theorem below that depends on such an insertion or
  lookup assumes the segments to be plain (\<open>plainSegment\<close>).
\<close>

subsection \<open>Tokens of a parsed template\<close>

text \<open>
  A token of path-to-regexp is either a plain string or a key object. Of a key the
  source reads the field \<^verbatim>\<open>pattern\<close> only.
\<close>

record Key =
  name :: string
  pattern :: string

datatype Token = Str string | KeyTok Key

text \<open>\<^verbatim>\<open>typeof token === 'string'\<close>\<close>

fun isString :: "Token \<Rightarrow> bool" where
  "isString (Str s) = True"
| "isString (KeyTok k) = False"

subsection \<open>String.prototype.split and Array.prototype.filter\<close>

text \<open>
  \<^verbatim>\<open>s.split(c)\<close> for a one-character separator: the pieces between the separators,
  empty pieces included; the empty string gives one empty piece.
\<close>

fun split :: "string \<Rightarrow> char \<Rightarrow> string list" where
  "split [] c = [[]]"
| "split (x # xs) c =
     (if x = c then [] # split xs c
      else (case split xs c of [] \<Rightarrow> [[x]] | h # t \<Rightarrow> (x # h) # t))"

text \<open>\<^verbatim>\<open>pathname.split('/').filter(s => s)\<close>: the empty string is the falsy one.\<close>

definition splitPath_of :: "string \<Rightarrow> string list" where
  "splitPath_of pathname = filter (\<lambda>s. s \<noteq> []) (split pathname CHR ''/'')"

subsection \<open>Property names of a plain object\<close>

text \<open>
  The names of the properties of \<^verbatim>\<open>Object.prototype\<close>, which a plain object
  \<^verbatim>\<open>{}\<close> answers to without having them as its own; and with them \<^verbatim>\<open>value\<close>
  and \<^verbatim>\<open>tail\<close>, the two properties that \<^verbatim>\<open>add\<close> writes, which every object
  inherits once \<^verbatim>\<open>add\<close> has met the segment \<^verbatim>\<open>__proto__\<close> and written them onto
  \<^verbatim>\<open>Object.prototype\<close> itself. A segment is plain when it is none of them; the
  wildcard key \<^verbatim>\<open>*\<close> and the text \<^verbatim>\<open>undefined\<close> are plain.
\<close>

definition inheritedNames :: "string list" where
  "inheritedNames =
     [''constructor'', ''__defineGetter__'', ''__defineSetter__'', ''hasOwnProperty'',
      ''__lookupGetter__'', ''__lookupSetter__'', ''isPrototypeOf'',
      ''propertyIsEnumerable'', ''toString'', ''valueOf'', ''__proto__'',
      ''toLocaleString'', ''value'', ''tail'']"

definition plainSegment :: "string \<Rightarrow> bool" where
  "plainSegment s = (s \<notin> set inheritedNames)"

subsection \<open>The class PrefixTree\<close>

text \<open>
  \<^verbatim>\<open>interface PrefixTreeNode<T> { value: T[] | null; tail: PrefixTree<T> | null }\<close>
  and \<^verbatim>\<open>class PrefixTree<T> { prefixes: { [prefix: string]: PrefixTreeNode<T> } }\<close>.
  The field \<^verbatim>\<open>value\<close> is the selector \<open>val\<close>.
\<close>

datatype 'a PrefixTreeNode =
  PrefixTreeNode (val: "'a list option") (tail: "'a PrefixTree option")
and 'a PrefixTree =
  PrefixTree (prefixes: "string \<Rightarrow> 'a PrefixTreeNode option")

text \<open>\<^verbatim>\<open>new PrefixTree<T>()\<close>\<close>

definition newPrefixTree :: "'a PrefixTree" where
  "newPrefixTree = PrefixTree (\<lambda>_. None)"

text \<open>
  \<^verbatim>\<open>find(path)\<close>, lines 19 to 34, for a path of plain segments (for a segment of
  \<open>inheritedNames\<close> without own entry the source goes on with the inherited object).
\<close>

fun find_path :: "'a PrefixTree \<Rightarrow> string list \<Rightarrow> 'a list option" where
  "find_path t [] = None"
| "find_path t (p # ps) =
    (case prefixes t p of
       None \<Rightarrow> None
     | Some node \<Rightarrow>
         if length (p # ps) > 1
         then (case tail node of None \<Rightarrow> None | Some t' \<Rightarrow> find_path t' ps)
         else val node)"

text \<open>
  \<^verbatim>\<open>add(path, value)\<close>, lines 36 to 54. The tree is mutated in place by the source and
  returned updated here. On the empty array \<^verbatim>\<open>path[0]\<close> is \<^verbatim>\<open>undefined\<close>, and a
  property access with that key reads and writes the property named
  \<^verbatim>\<open>"undefined"\<close>. The path is one of plain segments: for a segment of
  \<open>inheritedNames\<close> the source finds the inherited object, makes no own node and
  writes \<^verbatim>\<open>value\<close> or \<^verbatim>\<open>tail\<close> onto that shared object.
\<close>

function add :: "'a PrefixTree \<Rightarrow> string list \<Rightarrow> 'a \<Rightarrow> 'a PrefixTree" where
  "add t path v =
    (let prefix = (case path of [] \<Rightarrow> ''undefined'' | p # _ \<Rightarrow> p);
         node = (case prefixes t prefix of
                   None \<Rightarrow> PrefixTreeNode None None
                 | Some n \<Rightarrow> n)
     in if length path > 1
        then let tail0 = (case tail node of None \<Rightarrow> newPrefixTree | Some t' \<Rightarrow> t');
                 tail1 = add tail0 (drop 1 path) v
             in PrefixTree ((prefixes t)(prefix \<mapsto> PrefixTreeNode (val node) (Some tail1)))
        else PrefixTree ((prefixes t)(prefix \<mapsto>
               PrefixTreeNode (case val node of None \<Rightarrow> Some [v] | Some vs \<Rightarrow> Some (vs @ [v]))
                              (tail node))))"
  by pat_completeness auto
termination
  by (relation "measure (\<lambda>(t, path, v). length path)") auto

declare add.simps [simp del]

subsection \<open>takeWhile and expandToken\<close>

text \<open>
  \<^verbatim>\<open>takeWhile(arr, predicate)\<close>, lines 57 to 66: the loop over the index, with the
  rest of the array and the result so far as its state.
\<close>

fun takeWhile_loop :: "('a \<Rightarrow> bool) \<Rightarrow> 'a list \<Rightarrow> 'a list \<Rightarrow> 'a list" where
  "takeWhile_loop predicate [] result = result"
| "takeWhile_loop predicate (x # xs) result =
     (if \<not> predicate x then result else takeWhile_loop predicate xs (result @ [x]))"

definition takeWhile_arr :: "'a list \<Rightarrow> ('a \<Rightarrow> bool) \<Rightarrow> 'a list" where
  "takeWhile_arr arr predicate = takeWhile_loop predicate arr []"

text \<open>
  \<^verbatim>\<open>expandToken(token)\<close>, lines 68 to 78. The pattern compared with is the JavaScript
  literal \<^verbatim>\<open>'[^\\/]+?'\<close>, the seven characters \<^verbatim>\<open>[^\/]+?\<close>. The star it returns
  is a string, like the pieces of a literal.
\<close>

definition segmentPattern :: string where
  "segmentPattern = [CHR ''['', CHR ''^'', CHR 0x5C, CHR ''/'', CHR '']'', CHR ''+'', CHR ''?'']"

fun expandToken :: "Token \<Rightarrow> Token list" where
  "expandToken (Str s) = map Str (drop 1 (split s CHR ''/''))"
| "expandToken (KeyTok k) =
     (if pattern k = segmentPattern then [Str ''*''] else [KeyTok k])"

subsection \<open>buildTrie\<close>

text \<open>
  A route, of which the source reads \<^verbatim>\<open>path\<close> only; \<^verbatim>\<open>exact\<close> is for the external
  matcher.
\<close>

record InvariantRoute =
  path :: string
  exact :: bool

text \<open>
  The array \<^verbatim>\<open>stringPrefix\<close> of lines 90 to 101. After \<^verbatim>\<open>takeWhile\<close> every token
  is a string, which is what the cast to \<^verbatim>\<open>string[]\<close> relies on.
\<close>

fun asStrings :: "Token list \<Rightarrow> string list" where
  "asStrings [] = []"
| "asStrings (Str s # ts) = s # asStrings ts"
| "asStrings (KeyTok k # ts) = asStrings ts"

definition expandedTokens :: "(string \<Rightarrow> Token list) \<Rightarrow> InvariantRoute \<Rightarrow> Token list" where
  "expandedTokens parsePath route = concat (map expandToken (parsePath (path route)))"

definition stringPrefix :: "(string \<Rightarrow> Token list) \<Rightarrow> InvariantRoute \<Rightarrow> string list" where
  "stringPrefix parsePath route =
     asStrings (takeWhile_arr (expandedTokens parsePath route) isString)"

text \<open>
  \<^verbatim>\<open>buildTrie(routes)\<close>, lines 80 to 107. The declared result type is
  \<^verbatim>\<open>PrefixTree<InvariantRoute> | null\<close>, hence the option; the only \<^verbatim>\<open>return\<close> is
  \<^verbatim>\<open>return trie\<close>.
\<close>

definition buildTrie ::
  "(string \<Rightarrow> Token list) \<Rightarrow> InvariantRoute list \<Rightarrow> InvariantRoute PrefixTree option" where
  "buildTrie parsePath routes =
     Some (fold (\<lambda>route trie. add trie (stringPrefix parsePath route) route) routes newPrefixTree)"

subsection \<open>matchRoute\<close>

text \<open>\<^verbatim>\<open>type Query = { [key: string]: string | string[] }\<close> and the result of a match.\<close>

datatype QueryValue = Single string | Multi "string list"

type_synonym Query = "string \<Rightarrow> QueryValue option"

record 'm Result =
  route :: InvariantRoute
  match :: 'm

text \<open>
  The \<^verbatim>\<open>while\<close> loop of lines 132 to 143, with its three variables
  \<^verbatim>\<open>currentPrefix\<close>, \<^verbatim>\<open>currentTrie\<close> and \<^verbatim>\<open>patterns\<close> as the state; it returns
  \<^verbatim>\<open>patterns\<close>. The segments are plain: for a segment of \<open>inheritedNames\<close>
  without own entry the source's \<^verbatim>\<open>prefixes[prefix]\<close> is the inherited object, which
  is truthy, so that the wildcard key is not tried.
\<close>

function descend ::
  "string list \<Rightarrow> nat \<Rightarrow> 'a PrefixTree option \<Rightarrow> 'a list \<Rightarrow> 'a list" where
  "descend splitPath currentPrefix currentTrie patterns =
    (case currentTrie of
       None \<Rightarrow> patterns
     | Some t \<Rightarrow>
         if currentPrefix < length splitPath
         then let prefix = splitPath ! currentPrefix;
                  node = (case prefixes t prefix of
                            Some n \<Rightarrow> Some n
                          | None \<Rightarrow> prefixes t ''*'');
                  patterns' = (case node of
                                 None \<Rightarrow> patterns
                               | Some n \<Rightarrow> (case val n of
                                             None \<Rightarrow> patterns
                                           | Some vs \<Rightarrow> patterns @ vs))
              in descend splitPath (currentPrefix + 1)
                   (case node of None \<Rightarrow> None | Some n \<Rightarrow> tail n) patterns'
         else patterns)"
  by pat_completeness auto
termination
  by (relation "measure (\<lambda>(splitPath, currentPrefix, currentTrie, patterns).
        length splitPath - currentPrefix)") auto

declare descend.simps [simp del]

text \<open>
  The \<^verbatim>\<open>for\<close> loop of lines 145 to 152, counting down: the argument is \<^verbatim>\<open>i + 1\<close>,
  so that \<open>0\<close> is the exit of the loop and the final \<^verbatim>\<open>return null\<close>.
\<close>

primrec evaluate :: "('a \<Rightarrow> 'r option) \<Rightarrow> 'a list \<Rightarrow> nat \<Rightarrow> 'r option" where
  "evaluate run patterns 0 = None"
| "evaluate run patterns (Suc i) =
     (case run (patterns ! i) of
        Some m \<Rightarrow> Some m
      | None \<Rightarrow> evaluate run patterns i)"

text \<open>
  \<^verbatim>\<open>matchRoute(trie, pathname, queryParams, basePath)\<close>, lines 119 to 155. The
  parameter is declared non-null, but the caller at line 167 passes the result of
  \<^verbatim>\<open>buildTrie\<close> under \<^verbatim>\<open>@ts-ignore\<close>, so the model takes an option.
\<close>

definition matchRoute ::
  "(InvariantRoute \<Rightarrow> string \<Rightarrow> Query \<Rightarrow> string \<Rightarrow> 'm Result option) \<Rightarrow>
   InvariantRoute PrefixTree option \<Rightarrow> string \<Rightarrow> Query \<Rightarrow> string \<Rightarrow> 'm Result option" where
  "matchRoute execRouteMatching trie pathname queryParams basePath =
    (let splitPath = splitPath_of pathname;
         patterns = descend splitPath 0 trie []
     in evaluate (\<lambda>pattern. execRouteMatching pattern pathname queryParams basePath)
          patterns (length patterns))"

subsection \<open>Views of the code used in the proofs\<close>

text \<open>
  The \<^verbatim>\<open>while\<close> loop as a recursion over the segments still to read, giving the
  routes it pushes.
\<close>

fun collect :: "'a PrefixTree option \<Rightarrow> string list \<Rightarrow> 'a list" where
  "collect None segs = []"
| "collect (Some t) [] = []"
| "collect (Some t) (s # ss) =
     (case (case prefixes t s of Some n \<Rightarrow> Some n | None \<Rightarrow> prefixes t ''*'') of
        None \<Rightarrow> []
      | Some n \<Rightarrow> (case val n of None \<Rightarrow> [] | Some vs \<Rightarrow> vs) @ collect (tail n) ss)"

text \<open>\<^verbatim>\<open>trie?.find(path) ?? null\<close> on the result of \<^verbatim>\<open>buildTrie\<close>.\<close>

definition find_opt :: "'a PrefixTree option \<Rightarrow> string list \<Rightarrow> 'a list option" where
  "find_opt trie a = (case trie of None \<Rightarrow> None | Some t \<Rightarrow> find_path t a)"

text \<open>The node a tree holds at an address (a non-empty list of segments), if any.\<close>

fun nodeAt :: "'a PrefixTree \<Rightarrow> string list \<Rightarrow> 'a PrefixTreeNode option" where
  "nodeAt t [] = None"
| "nodeAt t [p] = prefixes t p"
| "nodeAt t (p # q # ps) =
     (case prefixes t p of
        None \<Rightarrow> None
      | Some n \<Rightarrow> (case tail n of None \<Rightarrow> None | Some t' \<Rightarrow> nodeAt t' (q # ps)))"

definition isNode :: "'a PrefixTree \<Rightarrow> string list \<Rightarrow> bool" where
  "isNode t a = (nodeAt t a \<noteq> None)"

definition valuesAt :: "'a PrefixTree \<Rightarrow> string list \<Rightarrow> 'a list" where
  "valuesAt t a =
     (case nodeAt t a of
        None \<Rightarrow> []
      | Some n \<Rightarrow> (case val n of None \<Rightarrow> [] | Some vs \<Rightarrow> vs))"

definition hasTail :: "'a PrefixTree \<Rightarrow> string list \<Rightarrow> bool" where
  "hasTail t a = (case nodeAt t a of None \<Rightarrow> False | Some n \<Rightarrow> tail n \<noteq> None)"

definition subtree :: "'a PrefixTree \<Rightarrow> string \<Rightarrow> 'a PrefixTree" where
  "subtree t p =
     (case prefixes t p of
        None \<Rightarrow> newPrefixTree
      | Some n \<Rightarrow> (case tail n of None \<Rightarrow> newPrefixTree | Some t' \<Rightarrow> t'))"

subsection \<open>The specification's side\<close>

text \<open>
  What follows is written from the specification, over the list of routes and a key
  for each of them (a list of segments, the wildcard being the segment \<^verbatim>\<open>*\<close>); no
  tree occurs in it. Which key a route has is a parameter: section 4.2 of the
  specification says one thing (\<open>specKey\<close> below) and \<^verbatim>\<open>buildTrie\<close> does another
  (\<open>stringPrefix\<close>).

  An address \<open>a\<close> is an edge of the route set when it starts the key of some route.
  The descent of section 4.3 takes, below the address \<open>pre\<close>, the edge of the segment
  itself when there is one and the edge of the wildcard key otherwise, and stops when
  there is neither.
\<close>

definition isPrefix :: "string list \<Rightarrow> string list \<Rightarrow> bool" where
  "isPrefix a k = (take (length a) k = a)"

definition hasEdge :: "string list list \<Rightarrow> string list \<Rightarrow> bool" where
  "hasEdge keys a = (\<exists>k \<in> set keys. isPrefix a k)"

text \<open>
  The link between the two sides, for the proofs: the tree \<open>t\<close> found below the address
  \<open>pre\<close> holds, at every address, what the routes \<open>rs\<close> with their addresses
  \<open>addr\<close> say.
\<close>

definition represents ::
  "('a \<Rightarrow> string list) \<Rightarrow> 'a list \<Rightarrow> string list \<Rightarrow> 'a PrefixTree \<Rightarrow> bool" where
  "represents addr rs pre t =
     (\<forall>a. a \<noteq> [] \<longrightarrow>
        isNode t a = hasEdge (map addr rs) (pre @ a) \<and>
        valuesAt t a = filter (\<lambda>r. addr r = pre @ a) rs \<and>
        hasTail t a = (\<exists>r \<in> set rs. isPrefix (pre @ a) (addr r) \<and> pre @ a \<noteq> addr r))"

definition chooseEdge :: "string list list \<Rightarrow> string list \<Rightarrow> string \<Rightarrow> string option" where
  "chooseEdge keys pre seg =
     (if hasEdge keys (pre @ [seg]) then Some seg
      else if hasEdge keys (pre @ [''*'']) then Some ''*''
      else None)"

fun visited :: "string list list \<Rightarrow> string list \<Rightarrow> string list \<Rightarrow> string list list" where
  "visited keys pre [] = []"
| "visited keys pre (s # ss) =
     (case chooseEdge keys pre s of
        None \<Rightarrow> []
      | Some e \<Rightarrow> (pre @ [e]) # visited keys (pre @ [e]) ss)"

text \<open>The first candidate of a list that the matcher accepts, with the matcher's result.\<close>

fun firstSuccess :: "('a \<Rightarrow> 'r option) \<Rightarrow> 'a list \<Rightarrow> 'r option" where
  "firstSuccess run [] = None"
| "firstSuccess run (c # cs) =
     (case run c of Some m \<Rightarrow> Some m | None \<Rightarrow> firstSuccess run cs)"

text \<open>
  Brute force: of all the registered routes keep those whose address the descent
  visits, order them by precedence (the deeper address first, and at one depth the
  route registered later first: a stable sort by depth, read backwards), and return
  the first one the external matcher accepts.
\<close>

definition candidatesByPrecedence ::
  "('a \<Rightarrow> string list) \<Rightarrow> 'a list \<Rightarrow> string list \<Rightarrow> 'a list" where
  "candidatesByPrecedence addr routes segs =
     rev (sort_key (\<lambda>r. length (addr r))
            (filter (\<lambda>r. addr r \<in> set (visited (map addr routes) [] segs)) routes))"

definition bruteForce ::
  "(InvariantRoute \<Rightarrow> string \<Rightarrow> Query \<Rightarrow> string \<Rightarrow> 'm Result option) \<Rightarrow>
   (InvariantRoute \<Rightarrow> string list) \<Rightarrow> InvariantRoute list \<Rightarrow> string \<Rightarrow> Query \<Rightarrow> string \<Rightarrow>
   'm Result option" where
  "bruteForce execRouteMatching key routes pathname queryParams basePath =
     firstSuccess (\<lambda>r. execRouteMatching r pathname queryParams basePath)
       (candidatesByPrecedence key routes (splitPath_of pathname))"

text \<open>
  Section 4.2 of the specification takes as insertion key the leading run of Literal
  tokens, a run that the first Wildcard ends. In the expanded sequence the wildcard is
  the string \<^verbatim>\<open>*\<close>.
\<close>

fun isLiteral :: "Token \<Rightarrow> bool" where
  "isLiteral (Str s) = (s \<noteq> ''*'')"
| "isLiteral (KeyTok k) = False"

definition literalRun :: "(string \<Rightarrow> Token list) \<Rightarrow> InvariantRoute \<Rightarrow> string list" where
  "literalRun parsePath r = asStrings (takeWhile isLiteral (expandedTokens parsePath r))"

text \<open>
  The key of a route as sections 3 and 4.2 of the specification have it: the leading
  run of Literal tokens, and for a route without one its very first token, "literal or
  wildcard", which here can only be the wildcard. A route that starts with neither has
  no segment to be keyed by; its key is empty, and no lookup of a segment reaches it.
\<close>

definition specKey :: "(string \<Rightarrow> Token list) \<Rightarrow> InvariantRoute \<Rightarrow> string list" where
  "specKey parsePath r =
     (case literalRun parsePath r of
        [] \<Rightarrow> (case expandedTokens parsePath r of
                 Str s # ts \<Rightarrow> [s]
               | _ \<Rightarrow> [])
      | k # ks \<Rightarrow> k # ks)"

text \<open>
  Section 4.1 of the specification splits a literal on the separator and discards the
  leading empty segment that a leading separator produces, and nothing else.
\<close>

definition expandLiteral_spec :: "string \<Rightarrow> Token list" where
  "expandLiteral_spec s =
     (case split s CHR ''/'' of
        [] \<Rightarrow> []
      | p # ps \<Rightarrow> if p = [] then map Str ps else map Str (p # ps))"

text \<open>The pieces put together again, with the separator between two of them.\<close>

fun join :: "string list \<Rightarrow> char \<Rightarrow> string" where
  "join [] c = []"
| "join [p] c = p"
| "join (p # q # ps) c = p @ c # join (q # ps) c"

subsection \<open>Routes of the examples\<close>

text \<open>
  The tokens path-to-regexp gives for the templates of the examples: a template
  without a parameter is one string token, a parameter \<^verbatim>\<open>:x\<close> after a slash is a
  key with the default pattern, and \<^verbatim>\<open>:id([0-9]+)\<close> is a key with the pattern in the
  brackets.
\<close>

definition segmentKey :: "string \<Rightarrow> Key" where
  "segmentKey n = \<lparr> name = n, pattern = segmentPattern \<rparr>"

definition exampleParse :: "string \<Rightarrow> Token list" where
  "exampleParse p =
     (if p = ''/a/:x'' then [Str ''/a'', KeyTok (segmentKey ''x'')]
      else if p = ''/a/:x/b'' then [Str ''/a'', KeyTok (segmentKey ''x''), Str ''/b'']
      else if p = ''/:x'' then [KeyTok (segmentKey ''x'')]
      else if p = ''/:id([0-9]+)'' then [KeyTok \<lparr> name = ''id'', pattern = ''[0-9]+'' \<rparr>]
      else if p = [] then []
      else [Str p])"

definition routeOf :: "string \<Rightarrow> InvariantRoute" where
  "routeOf p = \<lparr> path = p, exact = False \<rparr>"

definition acceptAll ::
  "InvariantRoute \<Rightarrow> string \<Rightarrow> Query \<Rightarrow> string \<Rightarrow> unit Result option" where
  "acceptAll r pathname queryParams basePath = Some \<lparr> route = r, match = () \<rparr>"

definition rejectAll ::
  "InvariantRoute \<Rightarrow> string \<Rightarrow> Query \<Rightarrow> string \<Rightarrow> unit Result option" where
  "rejectAll r pathname queryParams basePath = None"

definition noQuery :: Query where
  "noQuery = (\<lambda>k. None)"

section \<open>Lemmas\<close>

subsection \<open>The equations of add by the shape of the path\<close>

lemma add_Nil:
  "add t [] v = PrefixTree ((prefixes t)(''undefined'' \<mapsto>
     (case prefixes t ''undefined'' of
        None \<Rightarrow> PrefixTreeNode (Some [v]) None
      | Some n \<Rightarrow> PrefixTreeNode
          (case val n of None \<Rightarrow> Some [v] | Some vs \<Rightarrow> Some (vs @ [v])) (tail n))))"
  by (simp add: add.simps split: option.splits)

lemma add_single:
  "add t [p] v = PrefixTree ((prefixes t)(p \<mapsto>
     (case prefixes t p of
        None \<Rightarrow> PrefixTreeNode (Some [v]) None
      | Some n \<Rightarrow> PrefixTreeNode
          (case val n of None \<Rightarrow> Some [v] | Some vs \<Rightarrow> Some (vs @ [v])) (tail n))))"
  by (simp add: add.simps split: option.splits)

lemma add_Cons2:
  "add t (p # q # ps) v = PrefixTree ((prefixes t)(p \<mapsto>
     (case prefixes t p of
        None \<Rightarrow> PrefixTreeNode None (Some (add newPrefixTree (q # ps) v))
      | Some n \<Rightarrow> PrefixTreeNode (val n)
          (Some (add (case tail n of None \<Rightarrow> newPrefixTree | Some t' \<Rightarrow> t') (q # ps) v)))))"
  by (subst add.simps) (simp split: option.splits)

subsection \<open>The loops\<close>

lemma takeWhile_loop_eq: "takeWhile_loop P xs acc = acc @ takeWhile P xs"
  by (induction xs arbitrary: acc) auto

lemma takeWhile_arr_eq: "takeWhile_arr xs P = takeWhile P xs"
  by (simp add: takeWhile_arr_def takeWhile_loop_eq)

lemma descend_collect: "descend sp i tr ps = ps @ collect tr (drop i sp)"
proof (induction sp i tr ps rule: descend.induct)
  case (1 sp i tr ps)
  show ?case
  proof (cases tr)
    case None
    then show ?thesis by (simp add: descend.simps)
  next
    case (Some t)
    show ?thesis
    proof (cases "i < length sp")
      case False
      with Some show ?thesis by (simp add: descend.simps)
    next
      case True
      then have d: "drop i sp = sp ! i # drop (Suc i) sp"
        by (simp add: Cons_nth_drop_Suc)
      show ?thesis
        using Some True "1.IH"[OF Some True refl refl refl]
        by (subst descend.simps) (simp add: d Let_def split: option.splits)
    qed
  qed
qed

lemma evaluate_take:
  "n \<le> length ps \<Longrightarrow> evaluate run ps n = firstSuccess run (rev (take n ps))"
proof (induction n)
  case 0
  then show ?case by simp
next
  case (Suc n)
  then have "take (Suc n) ps = take n ps @ [ps ! n]"
    by (simp add: take_Suc_conv_app_nth)
  with Suc show ?case by (simp split: option.splits)
qed

lemma evaluate_rev: "evaluate run ps (length ps) = firstSuccess run (rev ps)"
  by (simp add: evaluate_take)

lemma matchRoute_collect:
  "matchRoute exec tr pathname q b =
     firstSuccess (\<lambda>r. exec r pathname q b) (rev (collect tr (splitPath_of pathname)))"
  by (simp add: matchRoute_def Let_def descend_collect evaluate_rev)

lemma firstSuccess_none: "\<forall>c \<in> set cs. run c = None \<Longrightarrow> firstSuccess run cs = None"
  by (induction cs) auto

lemma firstSuccess_append:
  "\<forall>c \<in> set cs. run c = None \<Longrightarrow> firstSuccess run (cs @ ds) = firstSuccess run ds"
  by (induction cs) auto

subsection \<open>What add changes at an address\<close>

lemma isPrefix_simps [simp]:
  "isPrefix [] k"
  "isPrefix (x # xs) [] = False"
  "isPrefix (x # xs) (y # ys) = (x = y \<and> isPrefix xs ys)"
  by (auto simp: isPrefix_def)

lemma isPrefix_append_same [simp]: "isPrefix (pre @ a) (pre @ k) = isPrefix a k"
  by (simp add: isPrefix_def)

lemma isPrefix_appendD: "isPrefix (a @ b) k \<Longrightarrow> isPrefix a k"
proof (induction a arbitrary: k)
  case Nil
  then show ?case by simp
next
  case (Cons x a)
  then show ?case by (cases k) auto
qed

lemma nodeAt_new [simp]: "nodeAt newPrefixTree a = None"
  by (cases a rule: remdups_adj.cases) (auto simp: newPrefixTree_def)

lemma nodeAt_Cons:
  "a \<noteq> [] \<Longrightarrow> nodeAt t (p # a) =
     (case prefixes t p of
        None \<Rightarrow> None
      | Some n \<Rightarrow> (case tail n of None \<Rightarrow> None | Some t' \<Rightarrow> nodeAt t' a))"
  by (cases a) auto

lemma nodeAt_subtree: "a \<noteq> [] \<Longrightarrow> nodeAt t (p # a) = nodeAt (subtree t p) a"
  by (cases a) (auto simp: subtree_def split: option.splits)

lemma subtree_add_single: "subtree (add t [p] v) x = subtree t x"
  by (auto simp: subtree_def add_single split: option.splits)

lemma subtree_add_Cons2:
  "subtree (add t (p # q # ps) v) x =
     (if x = p then add (subtree t p) (q # ps) v else subtree t x)"
  by (auto simp: subtree_def add_Cons2 split: option.splits)

lemma prefixes_add_single:
  "prefixes (add t [p] v) x =
     (if x = p
      then Some (PrefixTreeNode (Some (valuesAt t [p] @ [v]))
                   (case prefixes t p of None \<Rightarrow> None | Some n \<Rightarrow> tail n))
      else prefixes t x)"
  by (auto simp: add_single valuesAt_def split: option.splits)

lemma prefixes_add_Cons2:
  "prefixes (add t (p # q # ps) v) x =
     (if x = p
      then Some (PrefixTreeNode (case prefixes t p of None \<Rightarrow> None | Some n \<Rightarrow> val n)
                   (Some (add (subtree t p) (q # ps) v)))
      else prefixes t x)"
  by (auto simp: add_Cons2 subtree_def split: option.splits)

lemma nodeAt_add_single_deep:
  "a \<noteq> [] \<Longrightarrow> nodeAt (add t [p] v) (x # a) = nodeAt t (x # a)"
  by (simp add: nodeAt_subtree subtree_add_single)

lemma isNode_add:
  "k \<noteq> [] \<Longrightarrow> a \<noteq> [] \<Longrightarrow> isNode (add t k v) a = (isNode t a \<or> isPrefix a k)"
proof (induction k arbitrary: t a rule: induct_list012)
  case 1
  then show ?case by simp
next
  case (2 p)
  show ?case
  proof (cases a rule: remdups_adj.cases)
    case 1
    with 2 show ?thesis by simp
  next
    case (2 x)
    then show ?thesis by (simp add: isNode_def prefixes_add_single)
  next
    case (3 x y ys)
    then show ?thesis by (simp add: isNode_def nodeAt_add_single_deep del: nodeAt.simps)
  qed
next
  case (3 p q ps)
  show ?case
  proof (cases a rule: remdups_adj.cases)
    case 1
    with 3 show ?thesis by simp
  next
    case (2 x)
    then show ?thesis by (simp add: isNode_def prefixes_add_Cons2)
  next
    case (3 x y ys)
    then show ?thesis
      using "3.IH"(2)[of "y # ys" "subtree t p"]
      by (simp add: isNode_def nodeAt_subtree subtree_add_Cons2 del: nodeAt.simps)
  qed
qed

lemma valuesAt_add:
  "k \<noteq> [] \<Longrightarrow> valuesAt (add t k v) a = valuesAt t a @ (if a = k then [v] else [])"
proof (induction k arbitrary: t a rule: induct_list012)
  case 1
  then show ?case by simp
next
  case (2 p)
  show ?case
  proof (cases a rule: remdups_adj.cases)
    case 1
    then show ?thesis by (simp add: valuesAt_def)
  next
    case (2 x)
    then show ?thesis by (simp add: valuesAt_def prefixes_add_single split: option.splits)
  next
    case (3 x y ys)
    then show ?thesis by (simp add: valuesAt_def nodeAt_add_single_deep del: nodeAt.simps)
  qed
next
  case (3 p q ps)
  show ?case
  proof (cases a rule: remdups_adj.cases)
    case 1
    then show ?thesis by (simp add: valuesAt_def)
  next
    case (2 x)
    then show ?thesis by (simp add: valuesAt_def prefixes_add_Cons2 split: option.splits)
  next
    case (3 x y ys)
    then show ?thesis
      using "3.IH"(2)[of "subtree t p" "y # ys"]
      by (auto simp add: valuesAt_def nodeAt_subtree subtree_add_Cons2 simp del: nodeAt.simps)
  qed
qed

lemma hasTail_add:
  "k \<noteq> [] \<Longrightarrow>
   hasTail (add t k v) a = (hasTail t a \<or> (a \<noteq> [] \<and> isPrefix a k \<and> a \<noteq> k))"
proof (induction k arbitrary: t a rule: induct_list012)
  case 1
  then show ?case by simp
next
  case (2 p)
  show ?case
  proof (cases a rule: remdups_adj.cases)
    case 1
    then show ?thesis by (simp add: hasTail_def)
  next
    case (2 x)
    then show ?thesis by (auto simp add: hasTail_def prefixes_add_single split: option.splits)
  next
    case (3 x y ys)
    then show ?thesis by (simp add: hasTail_def nodeAt_add_single_deep del: nodeAt.simps)
  qed
next
  case (3 p q ps)
  show ?case
  proof (cases a rule: remdups_adj.cases)
    case 1
    then show ?thesis by (simp add: hasTail_def)
  next
    case (2 x)
    then show ?thesis by (auto simp add: hasTail_def prefixes_add_Cons2 split: option.splits)
  next
    case (3 x y ys)
    then show ?thesis
      using "3.IH"(2)[of "subtree t p" "y # ys"]
      by (auto simp add: hasTail_def nodeAt_subtree subtree_add_Cons2 simp del: nodeAt.simps)
  qed
qed

lemma find_path_nodeAt:
  "find_path t a = (case nodeAt t a of None \<Rightarrow> None | Some n \<Rightarrow> val n)"
proof (induction a arbitrary: t rule: induct_list012)
  case 1
  then show ?case by simp
next
  case (2 p)
  then show ?case by (simp split: option.splits)
next
  case (3 p q ps)
  then show ?case by (simp split: option.splits)
qed

lemma find_path_add:
  "k \<noteq> [] \<Longrightarrow>
   find_path (add t k v) a = (if a = k then Some (valuesAt t a @ [v]) else find_path t a)"
proof (induction k arbitrary: t a rule: induct_list012)
  case 1
  then show ?case by simp
next
  case (2 p)
  show ?case
  proof (cases a rule: remdups_adj.cases)
    case 1
    then show ?thesis by simp
  next
    case (2 x)
    then show ?thesis
      by (simp add: find_path_nodeAt prefixes_add_single)
  next
    case (3 x y ys)
    then show ?thesis
      by (simp add: find_path_nodeAt nodeAt_add_single_deep del: nodeAt.simps)
  qed
next
  case (3 p q ps)
  show ?case
  proof (cases a rule: remdups_adj.cases)
    case 1
    then show ?thesis by simp
  next
    case (2 x)
    then show ?thesis
      by (simp add: find_path_nodeAt prefixes_add_Cons2 split: option.splits)
  next
    case (3 x y ys)
    then show ?thesis
      using "3.IH"(2)[of "subtree t p" "y # ys"]
      by (auto simp add: find_path_nodeAt valuesAt_def nodeAt_subtree subtree_add_Cons2
            simp del: nodeAt.simps)
  qed
qed


subsection \<open>The tree that a sequence of insertions builds\<close>

lemma isNode_new [simp]: "isNode newPrefixTree a = False"
  by (simp add: isNode_def)

lemma valuesAt_new [simp]: "valuesAt newPrefixTree a = []"
  by (simp add: valuesAt_def)

lemma hasTail_new [simp]: "hasTail newPrefixTree a = False"
  by (simp add: hasTail_def)

lemma find_path_new [simp]: "find_path newPrefixTree a = None"
  by (simp add: find_path_nodeAt)

lemma fold_add_isNode:
  "\<forall>r \<in> set rs. addr r \<noteq> [] \<Longrightarrow> a \<noteq> [] \<Longrightarrow>
   isNode (fold (\<lambda>r t. add t (addr r) r) rs t0) a =
     (isNode t0 a \<or> (\<exists>r \<in> set rs. isPrefix a (addr r)))"
  by (induction rs arbitrary: t0) (auto simp: isNode_add)

lemma fold_add_valuesAt:
  "\<forall>r \<in> set rs. addr r \<noteq> [] \<Longrightarrow>
   valuesAt (fold (\<lambda>r t. add t (addr r) r) rs t0) a =
     valuesAt t0 a @ filter (\<lambda>r. addr r = a) rs"
  by (induction rs arbitrary: t0) (auto simp: valuesAt_add)

lemma fold_add_hasTail:
  "\<forall>r \<in> set rs. addr r \<noteq> [] \<Longrightarrow>
   hasTail (fold (\<lambda>r t. add t (addr r) r) rs t0) a =
     (hasTail t0 a \<or> (\<exists>r \<in> set rs. a \<noteq> [] \<and> isPrefix a (addr r) \<and> a \<noteq> addr r))"
  by (induction rs arbitrary: t0) (auto simp: hasTail_add)

lemma fold_add_find_path:
  "\<forall>r \<in> set rs. addr r \<noteq> [] \<Longrightarrow>
   find_path (fold (\<lambda>r t. add t (addr r) r) rs t0) a =
     (if filter (\<lambda>r. addr r = a) rs = [] then find_path t0 a
      else Some (valuesAt t0 a @ filter (\<lambda>r. addr r = a) rs))"
  by (induction rs arbitrary: t0) (auto simp: find_path_add valuesAt_add)

lemma represents_fold:
  assumes "\<forall>r \<in> set rs. addr r \<noteq> []"
  shows "represents addr rs [] (fold (\<lambda>r t. add t (addr r) r) rs newPrefixTree)"
  using assms
  by (auto simp: represents_def fold_add_isNode fold_add_valuesAt fold_add_hasTail hasEdge_def)

lemma represents_at:
  assumes "represents addr rs pre t" and "a \<noteq> []"
  shows "isNode t a = hasEdge (map addr rs) (pre @ a)"
    and "valuesAt t a = filter (\<lambda>r. addr r = pre @ a) rs"
    and "hasTail t a = (\<exists>r \<in> set rs. isPrefix (pre @ a) (addr r) \<and> pre @ a \<noteq> addr r)"
  using assms unfolding represents_def by blast+

lemma represents_step:
  assumes rep: "represents addr rs pre t"
    and n: "prefixes t e = Some n" and t': "tail n = Some t'"
  shows "represents addr rs (pre @ [e]) t'"
proof -
  have eq: "nodeAt t (e # a) = nodeAt t' a" if "a \<noteq> []" for a
    using that n t' by (simp add: nodeAt_Cons)
  show ?thesis
    unfolding represents_def
  proof (intro allI impI)
    fix a :: "string list"
    assume a: "a \<noteq> []"
    have "e # a \<noteq> []" by simp
    from represents_at[OF rep this]
    show "isNode t' a = hasEdge (map addr rs) ((pre @ [e]) @ a) \<and>
       valuesAt t' a = filter (\<lambda>r. addr r = (pre @ [e]) @ a) rs \<and>
       hasTail t' a =
         (\<exists>r \<in> set rs. isPrefix ((pre @ [e]) @ a) (addr r) \<and> (pre @ [e]) @ a \<noteq> addr r)"
      by (simp add: isNode_def valuesAt_def hasTail_def eq[OF a])
  qed
qed

lemma represents_edge:
  assumes "represents addr rs pre t"
  shows "(prefixes t e \<noteq> None) = hasEdge (map addr rs) (pre @ [e])"
  using represents_at(1)[OF assms, of "[e]"] by (simp add: isNode_def)

lemma represents_values:
  assumes "represents addr rs pre t" "prefixes t e = Some n"
  shows "(case val n of None \<Rightarrow> [] | Some vs \<Rightarrow> vs) = filter (\<lambda>r. addr r = pre @ [e]) rs"
  using represents_at(2)[OF assms(1), of "[e]"] assms(2) by (simp add: valuesAt_def)

lemma represents_leaf:
  assumes rep: "represents addr rs pre t"
    and n: "prefixes t e = Some n" and tl: "tail n = None"
  shows "visited (map addr rs) (pre @ [e]) ss = []"
proof (cases ss)
  case Nil
  then show ?thesis by simp
next
  case (Cons s ss')
  from represents_at(3)[OF rep, of "[e]"] n tl
  have none: "\<forall>r \<in> set rs. isPrefix (pre @ [e]) (addr r) \<longrightarrow> pre @ [e] = addr r"
    by (simp add: hasTail_def)
  have "\<not> hasEdge (map addr rs) ((pre @ [e]) @ [x])" for x
  proof
    assume "hasEdge (map addr rs) ((pre @ [e]) @ [x])"
    then obtain r where r: "r \<in> set rs" "isPrefix ((pre @ [e]) @ [x]) (addr r)"
      by (auto simp: hasEdge_def)
    from r(2) have "isPrefix (pre @ [e]) (addr r)" by (rule isPrefix_appendD)
    with none r(1) have "pre @ [e] = addr r" by blast
    with r(2) show False by (simp add: isPrefix_def)
  qed
  then show ?thesis using Cons by (simp add: chooseEdge_def)
qed

lemma collect_visited:
  "represents addr rs pre t \<Longrightarrow>
   collect (Some t) segs =
     concat (map (\<lambda>a. filter (\<lambda>r. addr r = a) rs) (visited (map addr rs) pre segs))"
proof (induction segs arbitrary: t pre)
  case Nil
  then show ?case by simp
next
  case (Cons s ss)
  note rep = Cons.prems
  have edge: "(prefixes t e \<noteq> None) = hasEdge (map addr rs) (pre @ [e])" for e
    using rep by (rule represents_edge)
  have step: "(case val n of None \<Rightarrow> [] | Some vs \<Rightarrow> vs) @ collect (tail n) ss =
      filter (\<lambda>r. addr r = pre @ [e]) rs @
      concat (map (\<lambda>a. filter (\<lambda>r. addr r = a) rs) (visited (map addr rs) (pre @ [e]) ss))"
    if n: "prefixes t e = Some n" for e n
  proof (cases "tail n")
    case None
    then show ?thesis
      using represents_values[OF rep n] represents_leaf[OF rep n None] by simp
  next
    case (Some t')
    then show ?thesis
      using represents_values[OF rep n] Cons.IH[OF represents_step[OF rep n Some]] by simp
  qed
  show ?case
  proof (cases "prefixes t s")
    case (Some n)
    then have "chooseEdge (map addr rs) pre s = Some s"
      using edge[of s] by (simp add: chooseEdge_def)
    then show ?thesis using Some step[OF Some] by simp
  next
    case None
    then have no: "\<not> hasEdge (map addr rs) (pre @ [s])" using edge[of s] by simp
    show ?thesis
    proof (cases "prefixes t ''*''")
      case None2: None
      then have "chooseEdge (map addr rs) pre s = None"
        using no edge[of "''*''"] by (simp add: chooseEdge_def)
      then show ?thesis using None None2 by simp
    next
      case (Some n)
      then have "chooseEdge (map addr rs) pre s = Some ''*''"
        using no edge[of "''*''"] by (simp add: chooseEdge_def)
      then show ?thesis using None Some step[OF Some] by simp
    qed
  qed
qed

subsection \<open>The precedence order is the order of collection, reversed\<close>

lemma mset_groups:
  "distinct as \<Longrightarrow>
   mset (concat (map (\<lambda>a. filter (\<lambda>r. addr r = a) rs) as)) =
   mset (filter (\<lambda>r. addr r \<in> set as) rs)"
proof (induction as)
  case Nil
  then show ?case by simp
next
  case (Cons a as)
  have "mset (filter (\<lambda>r. addr r = a) rs) + mset (filter (\<lambda>r. addr r \<in> set as) rs) =
        mset (filter (\<lambda>r. addr r = a \<or> addr r \<in> set as) rs)"
    using Cons.prems by (induction rs) auto
  with Cons show ?case by simp
qed

lemma sorted_same_key: "\<forall>x \<in> set xs. f x = (c::nat) \<Longrightarrow> sorted (map f xs)"
  by (induction xs) auto

lemma filter_group_length:
  "filter (\<lambda>x. addr x = a \<and> length a = length (addr x)) rs = filter (\<lambda>r. addr r = a) rs"
  by (rule filter_cong) auto

lemma sorted_groups:
  "sorted_wrt (\<lambda>a b. length a < length b) as \<Longrightarrow>
   sorted (map (\<lambda>r. length (addr r)) (concat (map (\<lambda>a. filter (\<lambda>r. addr r = a) rs) as)))"
proof (induction as)
  case Nil
  then show ?case by simp
next
  case (Cons a as)
  then show ?case
    by (auto simp: sorted_append map_concat
          intro!: sorted_same_key[where c = "length a"] dest!: less_imp_le)
qed

lemma filter_groups:
  "sorted_wrt (\<lambda>a b. length a < length b) as \<Longrightarrow>
   filter (\<lambda>r. n = length (addr r)) (concat (map (\<lambda>a. filter (\<lambda>r. addr r = a) rs) as)) =
   filter (\<lambda>r. n = length (addr r)) (filter (\<lambda>r. addr r \<in> set as) rs)"
proof (induction as)
  case Nil
  then show ?case by simp
next
  case (Cons a as)
  show ?case
  proof (cases "n = length a")
    case True
    then have no: "\<forall>b \<in> set as. length b \<noteq> n" using Cons.prems by auto
    have 1: "filter (\<lambda>r. n = length (addr r)) (filter (\<lambda>r. addr r \<in> set as) rs) = []"
      using no by (auto simp: filter_empty_conv)
    have 2: "filter (\<lambda>r. n = length (addr r)) (filter (\<lambda>r. addr r \<in> set (a # as)) rs) =
             filter (\<lambda>r. addr r = a) rs"
      using no True by (auto intro!: filter_cong)
    show ?thesis using Cons 1 2 True by (auto simp: filter_id_conv filter_group_length)
  next
    case False
    have "filter (\<lambda>r. n = length (addr r)) (filter (\<lambda>r. addr r \<in> set (a # as)) rs) =
          filter (\<lambda>r. n = length (addr r)) (filter (\<lambda>r. addr r \<in> set as) rs)"
      using False by (auto intro!: filter_cong)
    moreover have "filter (\<lambda>r. n = length (addr r)) (filter (\<lambda>r. addr r = a) rs) = []"
      using False by (auto simp: filter_empty_conv)
    ultimately show ?thesis using Cons by simp
  qed
qed

lemma sorted_wrt_length_distinct:
  "sorted_wrt (\<lambda>a b. length a < length b) as \<Longrightarrow> distinct as"
  by (induction as) auto

lemma sort_groups:
  assumes "sorted_wrt (\<lambda>a b. length a < length b) as"
  shows "sort_key (\<lambda>r. length (addr r)) (filter (\<lambda>r. addr r \<in> set as) rs) =
         concat (map (\<lambda>a. filter (\<lambda>r. addr r = a) rs) as)"
proof (rule properties_for_sort_key)
  show "mset (concat (map (\<lambda>a. filter (\<lambda>r. addr r = a) rs) as)) =
        mset (filter (\<lambda>r. addr r \<in> set as) rs)"
    using assms by (simp add: mset_groups sorted_wrt_length_distinct)
  show "sorted (map (\<lambda>r. length (addr r))
          (concat (map (\<lambda>a. filter (\<lambda>r. addr r = a) rs) as)))"
    using assms by (rule sorted_groups)
  show "filter (\<lambda>x. length (addr k) = length (addr x))
          (concat (map (\<lambda>a. filter (\<lambda>r. addr r = a) rs) as)) =
        filter (\<lambda>x. length (addr k) = length (addr x))
          (filter (\<lambda>r. addr r \<in> set as) rs)" for k
    using assms by (rule filter_groups)
qed

lemma visited_longer: "a \<in> set (visited keys pre segs) \<Longrightarrow> length pre < length a"
proof (induction segs arbitrary: pre)
  case Nil
  then show ?case by simp
next
  case (Cons s ss)
  then show ?case by (fastforce split: option.splits)
qed

lemma visited_sorted: "sorted_wrt (\<lambda>a b. length a < length b) (visited keys pre segs)"
proof (induction segs arbitrary: pre)
  case Nil
  then show ?case by simp
next
  case (Cons s ss)
  then show ?case by (auto split: option.splits dest: visited_longer)
qed

lemma collect_buildTrie:
  assumes keys: "\<forall>r \<in> set routes. stringPrefix parsePath r \<noteq> []"
    and b: "buildTrie parsePath routes = Some trie"
  shows "rev (collect (Some trie) segs) =
     candidatesByPrecedence (stringPrefix parsePath) routes segs"
proof -
  let ?addr = "stringPrefix parsePath"
  have t: "trie = fold (\<lambda>r t. add t (?addr r) r) routes newPrefixTree"
    using b by (simp add: buildTrie_def)
  have "represents ?addr routes [] trie"
    unfolding t using keys by (rule represents_fold)
  from collect_visited[OF this]
  show ?thesis
    by (simp add: candidatesByPrecedence_def sort_groups[OF visited_sorted])
qed

subsection \<open>Splitting\<close>

lemma split_nonempty [simp]: "split s c \<noteq> []"
  by (induction s) (auto split: list.splits)

lemma join_Cons: "ps \<noteq> [] \<Longrightarrow> join (p # ps) c = p @ c # join ps c"
  by (cases ps) auto

lemma join_split: "join (split s c) c = s"
proof (induction s)
  case Nil
  then show ?case by simp
next
  case (Cons x s)
  show ?case
  proof (cases "x = c")
    case True
    with Cons show ?thesis by (simp add: join_Cons)
  next
    case False
    obtain h t where ht: "split s c = h # t" by (cases "split s c") auto
    with Cons have "join (h # t) c = s" by simp
    then have "join ((x # h) # t) c = x # s" by (cases t) auto
    with False ht show ?thesis by simp
  qed
qed

lemma split_no_separator: "p \<in> set (split s c) \<Longrightarrow> c \<notin> set p"
proof (induction s arbitrary: p)
  case Nil
  then show ?case by simp
next
  case (Cons x s)
  then show ?case by (auto split: if_splits list.splits)
qed

lemma split_all_empty: "(\<forall>p \<in> set (split s c). p = []) = (\<forall>x \<in> set s. x = c)"
proof (induction s)
  case Nil
  then show ?case by simp
next
  case (Cons x s)
  then show ?case by (auto split: list.splits)
qed

lemma splitPath_of_empty: "(splitPath_of pathname = []) = (\<forall>x \<in> set pathname. x = CHR ''/'')"
  by (simp add: splitPath_of_def filter_empty_conv split_all_empty)


section \<open>The claims\<close>

subsection \<open>Auxiliary facts and the examples evaluated\<close>

lemma stringPrefix_via_takeWhile:
  "stringPrefix parsePath r =
     asStrings (takeWhile isString (concat (map expandToken (parsePath (path r)))))"
  by (simp add: stringPrefix_def expandedTokens_def takeWhile_arr_eq)

lemmas example_simps =
  buildTrie_def stringPrefix_via_takeWhile exampleParse_def routeOf_def segmentKey_def
  add_Nil add_single add_Cons2 newPrefixTree_def splitPath_of_def

lemma routeOf_eq [simp]: "(routeOf p = routeOf p') = (p = p')"
  by (simp add: routeOf_def)

lemma example_two_candidates:
  "descend (splitPath_of ''/a/b'') 0
     (buildTrie exampleParse [routeOf ''/a'', routeOf ''/a/b'']) [] =
   [routeOf ''/a'', routeOf ''/a/b'']"
  by (simp add: descend_collect example_simps)

lemma example_keys:
  "stringPrefix exampleParse (routeOf ''/a/:x/b'') = [''a'', ''*'', ''b'']"
  "stringPrefix exampleParse (routeOf ''/a/1/c'') = [''a'', ''1'', ''c'']"
  by (simp_all add: example_simps)

lemma Str_asStrings: "\<forall>x \<in> set ts. isString x \<Longrightarrow> map Str (asStrings ts) = ts"
proof (induction ts)
  case Nil
  then show ?case by simp
next
  case (Cons x ts)
  then show ?case by (cases x) auto
qed

lemma find_opt_buildTrie:
  assumes "\<forall>r \<in> set routes. stringPrefix parsePath r \<noteq> []"
  shows "find_opt (buildTrie parsePath routes) a =
     (if filter (\<lambda>r. stringPrefix parsePath r = a) routes = [] then None
      else Some (filter (\<lambda>r. stringPrefix parsePath r = a) routes))"
  using fold_add_find_path[OF assms, of newPrefixTree a]
  by (simp add: find_opt_def buildTrie_def)

lemma split_before_separator:
  "c \<notin> set u \<Longrightarrow> split (u @ c # s) c = u # split s c"
  by (induction u) auto

lemma split_without_separator: "c \<notin> set u \<Longrightarrow> split u c = [u]"
  by (induction u) auto

subsection \<open>C1: the tree against brute force\<close>

text \<open>
  \<^bold>\<open>C1\<close>, as stated, fails. With the keys of the specification the route
  \<^verbatim>\<open>/a/:x/b\<close> sits under \<^verbatim>\<open>a\<close>, the descent for the path \<^verbatim>\<open>/a/1/b\<close> passes
  there, and brute force returns the route, which the matcher accepts. The tree of
  \<^verbatim>\<open>buildTrie\<close> holds it under \<^verbatim>\<open>a, *, b\<close>; with \<^verbatim>\<open>/a/1/c\<close> registered as well
  the descent takes the edge \<^verbatim>\<open>1\<close>, finds nothing below it for \<^verbatim>\<open>b\<close>, does not
  go back to the wildcard, and \<^verbatim>\<open>matchRoute\<close> returns null.
\<close>

theorem matchRoute_bruteForce_counterexample:
  "specKey exampleParse (routeOf ''/a/:x/b'') = [''a'']
   \<and> specKey exampleParse (routeOf ''/a/1/c'') = [''a'', ''1'', ''c'']
   \<and> bruteForce acceptAll (specKey exampleParse) [routeOf ''/a/:x/b'', routeOf ''/a/1/c'']
       ''/a/1/b'' noQuery [] = Some \<lparr> route = routeOf ''/a/:x/b'', match = () \<rparr>
   \<and> matchRoute acceptAll (buildTrie exampleParse [routeOf ''/a/:x/b'', routeOf ''/a/1/c''])
       ''/a/1/b'' noQuery [] = None"
proof -
  have k: "specKey exampleParse (routeOf ''/a/:x/b'') = [''a'']"
    "specKey exampleParse (routeOf ''/a/1/c'') = [''a'', ''1'', ''c'']"
    by (simp_all add: specKey_def literalRun_def expandedTokens_def exampleParse_def
          routeOf_def segmentKey_def)
  have b: "bruteForce acceptAll (specKey exampleParse)
       [routeOf ''/a/:x/b'', routeOf ''/a/1/c''] ''/a/1/b'' noQuery [] =
     Some \<lparr> route = routeOf ''/a/:x/b'', match = () \<rparr>"
    by (simp add: bruteForce_def candidatesByPrecedence_def k chooseEdge_def hasEdge_def
          splitPath_of_def acceptAll_def)
  have m: "matchRoute acceptAll
       (buildTrie exampleParse [routeOf ''/a/:x/b'', routeOf ''/a/1/c''])
       ''/a/1/b'' noQuery [] = None"
    by (simp add: matchRoute_collect example_simps)
  from k b m show ?thesis by simp
qed

text \<open>
  \<^bold>\<open>C1\<close>, amended. Let every route have a non-empty insertion key (the leading run
  of string tokens of its expanded template, the stars of wildcards included), and
  let the segments of the keys and of the request path be plain. Then \<^verbatim>\<open>matchRoute\<close>
  on the tree that \<^verbatim>\<open>buildTrie\<close> makes returns what brute force with these keys
  returns: every registered route is looked at, those whose key is an address that
  the descent reaches are kept (the descent takes the literal edge, else the wildcard
  edge, and never goes back), they are ordered deepest first and, at one depth, last
  registered first, and the first one the external matcher accepts is the result.
\<close>

theorem matchRoute_equals_bruteForce:
  "(\<forall>r \<in> set routes. stringPrefix parsePath r \<noteq> [] \<and>
       list_all plainSegment (stringPrefix parsePath r)) \<and>
   list_all plainSegment (splitPath_of pathname) \<longrightarrow>
   matchRoute exec (buildTrie parsePath routes) pathname q b =
     bruteForce exec (stringPrefix parsePath) routes pathname q b"
proof
  assume h: "(\<forall>r \<in> set routes. stringPrefix parsePath r \<noteq> [] \<and>
       list_all plainSegment (stringPrefix parsePath r)) \<and>
     list_all plainSegment (splitPath_of pathname)"
  then have keys: "\<forall>r \<in> set routes. stringPrefix parsePath r \<noteq> []"
    by blast
  obtain trie where t: "buildTrie parsePath routes = Some trie"
    by (simp add: buildTrie_def)
  show "matchRoute exec (buildTrie parsePath routes) pathname q b =
     bruteForce exec (stringPrefix parsePath) routes pathname q b"
    by (simp add: t matchRoute_collect bruteForce_def collect_buildTrie[OF keys t])
qed

text \<open>
  The routes \<^verbatim>\<open>/a\<close>, \<^verbatim>\<open>/a/:x\<close> and \<^verbatim>\<open>/a/b\<close>, registered in this order, and a
  matcher that accepts everything: brute force gives \<^verbatim>\<open>/a/b\<close> for the path
  \<^verbatim>\<open>/a/b\<close>, \<^verbatim>\<open>/a/:x\<close> for \<^verbatim>\<open>/a/c\<close>, and \<^verbatim>\<open>/a\<close> for \<^verbatim>\<open>/a\<close>.
\<close>

theorem matchRoute_equals_bruteForce_witness:
  "bruteForce acceptAll (stringPrefix exampleParse)
     [routeOf ''/a'', routeOf ''/a/:x'', routeOf ''/a/b'']
     ''/a/b'' noQuery [] = Some \<lparr> route = routeOf ''/a/b'', match = () \<rparr>
   \<and> bruteForce acceptAll (stringPrefix exampleParse)
     [routeOf ''/a'', routeOf ''/a/:x'', routeOf ''/a/b'']
     ''/a/c'' noQuery [] = Some \<lparr> route = routeOf ''/a/:x'', match = () \<rparr>
   \<and> bruteForce acceptAll (stringPrefix exampleParse)
     [routeOf ''/a'', routeOf ''/a/:x'', routeOf ''/a/b'']
     ''/a'' noQuery [] = Some \<lparr> route = routeOf ''/a'', match = () \<rparr>"
  using
    matchRoute_equals_bruteForce[of "[routeOf ''/a'', routeOf ''/a/:x'', routeOf ''/a/b'']"
      exampleParse "''/a/b''" acceptAll noQuery "[]"]
    matchRoute_equals_bruteForce[of "[routeOf ''/a'', routeOf ''/a/:x'', routeOf ''/a/b'']"
      exampleParse "''/a/c''" acceptAll noQuery "[]"]
    matchRoute_equals_bruteForce[of "[routeOf ''/a'', routeOf ''/a/:x'', routeOf ''/a/b'']"
      exampleParse "''/a''" acceptAll noQuery "[]"]
  by (simp add: matchRoute_collect example_simps acceptAll_def segmentPattern_def
        plainSegment_def inheritedNames_def)

subsection \<open>C2: the literal edge first\<close>

text \<open>
  \<^bold>\<open>C2.\<close> At a step of the descent the node under the segment itself is taken when
  the tree has one, and the node under the wildcard key only when it has none; for a
  plain segment without a node of its own the node under the wildcard key is the one
  taken. With the routes \<^verbatim>\<open>/a/:x\<close> and \<^verbatim>\<open>/a/b\<close> registered, in either order, the only
  candidate for the path \<^verbatim>\<open>/a/b\<close> is \<^verbatim>\<open>/a/b\<close> and the only candidate for
  \<^verbatim>\<open>/a/c\<close> is \<^verbatim>\<open>/a/:x\<close>, so the result is the external matcher's on that route.
\<close>

theorem literal_edge_before_wildcard:
  "(i < length sp \<and> prefixes t (sp ! i) = Some n \<longrightarrow>
      descend sp i (Some t) ps =
        descend sp (Suc i) (tail n) (ps @ (case val n of None \<Rightarrow> [] | Some vs \<Rightarrow> vs)))
   \<and> (i < length sp \<and> prefixes t (sp ! i) = None \<and> plainSegment (sp ! i) \<longrightarrow>
      descend sp i (Some t) ps =
        (case prefixes t ''*'' of
           None \<Rightarrow> ps
         | Some w \<Rightarrow> descend sp (Suc i) (tail w)
                      (ps @ (case val w of None \<Rightarrow> [] | Some vs \<Rightarrow> vs))))
   \<and> (parsePath ''/a/:x'' = [Str ''/a'', KeyTok k] \<and> pattern k = segmentPattern \<and>
      parsePath ''/a/b'' = [Str ''/a/b''] \<and>
      (routes = [routeOf ''/a/:x'', routeOf ''/a/b''] \<or>
       routes = [routeOf ''/a/b'', routeOf ''/a/:x'']) \<longrightarrow>
      matchRoute exec (buildTrie parsePath routes) ''/a/b'' q b =
        exec (routeOf ''/a/b'') ''/a/b'' q b \<and>
      matchRoute exec (buildTrie parsePath routes) ''/a/c'' q b =
        exec (routeOf ''/a/:x'') ''/a/c'' q b)"
proof (intro conjI impI)
  assume "i < length sp \<and> prefixes t (sp ! i) = Some n"
  then show "descend sp i (Some t) ps =
      descend sp (Suc i) (tail n) (ps @ (case val n of None \<Rightarrow> [] | Some vs \<Rightarrow> vs))"
    by (subst descend.simps) (simp split: option.splits)
next
  assume "i < length sp \<and> prefixes t (sp ! i) = None \<and> plainSegment (sp ! i)"
  then show "descend sp i (Some t) ps =
      (case prefixes t ''*'' of
         None \<Rightarrow> ps
       | Some w \<Rightarrow> descend sp (Suc i) (tail w)
                    (ps @ (case val w of None \<Rightarrow> [] | Some vs \<Rightarrow> vs)))"
    by (subst descend.simps) (simp add: descend.simps[of sp "Suc i" None] split: option.splits)
next
  assume h: "parsePath ''/a/:x'' = [Str ''/a'', KeyTok k] \<and> pattern k = segmentPattern \<and>
      parsePath ''/a/b'' = [Str ''/a/b''] \<and>
      (routes = [routeOf ''/a/:x'', routeOf ''/a/b''] \<or>
       routes = [routeOf ''/a/b'', routeOf ''/a/:x''])"
  then have keys:
    "stringPrefix parsePath (routeOf ''/a/:x'') = [''a'', ''*'']"
    "stringPrefix parsePath (routeOf ''/a/b'') = [''a'', ''b'']"
    by (simp_all add: stringPrefix_via_takeWhile routeOf_def)
  have "collect (buildTrie parsePath routes) [''a'', ''b''] = [routeOf ''/a/b''] \<and>
        collect (buildTrie parsePath routes) [''a'', ''c''] = [routeOf ''/a/:x'']"
    using h
    by (auto simp add: buildTrie_def keys add_Cons2 add_single newPrefixTree_def)
  then show "matchRoute exec (buildTrie parsePath routes) ''/a/b'' q b =
        exec (routeOf ''/a/b'') ''/a/b'' q b"
    and "matchRoute exec (buildTrie parsePath routes) ''/a/c'' q b =
        exec (routeOf ''/a/:x'') ''/a/c'' q b"
    by (simp_all add: matchRoute_collect splitPath_of_def split: option.splits)
qed

text \<open>
  Both kinds of step on a tree with the two edges, and the example with the tokens of
  path-to-regexp and a matcher that accepts everything.
\<close>

theorem literal_edge_before_wildcard_witness:
  "descend [''b''] 0
     (Some (PrefixTree ((\<lambda>_. None)(''b'' \<mapsto> PrefixTreeNode (Some [1::nat]) None,
                                    ''*'' \<mapsto> PrefixTreeNode (Some [2]) None)))) [] = [1]
   \<and> descend [''c''] 0
     (Some (PrefixTree ((\<lambda>_. None)(''b'' \<mapsto> PrefixTreeNode (Some [1::nat]) None,
                                    ''*'' \<mapsto> PrefixTreeNode (Some [2]) None)))) [] = [2]
   \<and> matchRoute acceptAll
       (buildTrie exampleParse [routeOf ''/a/:x'', routeOf ''/a/b'']) ''/a/b'' noQuery [] =
       Some \<lparr> route = routeOf ''/a/b'', match = () \<rparr>
   \<and> matchRoute acceptAll
       (buildTrie exampleParse [routeOf ''/a/:x'', routeOf ''/a/b'']) ''/a/c'' noQuery [] =
       Some \<lparr> route = routeOf ''/a/:x'', match = () \<rparr>"
  using
    literal_edge_before_wildcard[of 0 "[''b'']"
      "PrefixTree ((\<lambda>_. None)(''b'' \<mapsto> PrefixTreeNode (Some [1::nat]) None,
                               ''*'' \<mapsto> PrefixTreeNode (Some [2]) None))"
      "PrefixTreeNode (Some [1::nat]) None" "[]"
      exampleParse "segmentKey ''x''" "[routeOf ''/a/:x'', routeOf ''/a/b'']"
      acceptAll noQuery "[]"]
    literal_edge_before_wildcard[of 0 "[''c'']"
      "PrefixTree ((\<lambda>_. None)(''b'' \<mapsto> PrefixTreeNode (Some [1::nat]) None,
                               ''*'' \<mapsto> PrefixTreeNode (Some [2]) None))"
      "PrefixTreeNode (Some [1::nat]) None" "[]"
      exampleParse "segmentKey ''x''" "[routeOf ''/a/:x'', routeOf ''/a/b'']"
      acceptAll noQuery "[]"]
  by (simp add: exampleParse_def segmentKey_def acceptAll_def descend.simps[of _ _ None]
        plainSegment_def inheritedNames_def)

subsection \<open>C3: the order of evaluation\<close>

text \<open>
  \<^bold>\<open>C3.\<close> After the descent \<^verbatim>\<open>matchRoute\<close> goes through the collected candidates
  from the last one to the first, asks the external matcher about each, and returns
  the matcher's result for the first candidate it accepts: when the matcher accepts
  a candidate and none of those collected after it, that candidate's result is
  returned; when it accepts none, the result is null.
\<close>

theorem candidates_evaluated_in_reverse:
  "matchRoute exec trie pathname q b =
     firstSuccess (\<lambda>r. exec r pathname q b)
       (rev (descend (splitPath_of pathname) 0 trie []))
   \<and> ((\<forall>c \<in> set (descend (splitPath_of pathname) 0 trie []). exec c pathname q b = None) \<longrightarrow>
        matchRoute exec trie pathname q b = None)
   \<and> (descend (splitPath_of pathname) 0 trie [] = before @ c # after \<and>
      exec c pathname q b = Some m \<and>
      (\<forall>c' \<in> set after. exec c' pathname q b = None) \<longrightarrow>
        matchRoute exec trie pathname q b = Some m)"
proof (intro conjI impI)
  show eq: "matchRoute exec trie pathname q b =
     firstSuccess (\<lambda>r. exec r pathname q b)
       (rev (descend (splitPath_of pathname) 0 trie []))"
    by (simp add: matchRoute_def Let_def evaluate_rev)
  {
    assume "\<forall>c \<in> set (descend (splitPath_of pathname) 0 trie []). exec c pathname q b = None"
    then show "matchRoute exec trie pathname q b = None"
      by (simp add: eq firstSuccess_none)
  next
    assume h: "descend (splitPath_of pathname) 0 trie [] = before @ c # after \<and>
      exec c pathname q b = Some m \<and>
      (\<forall>c' \<in> set after. exec c' pathname q b = None)"
    then have "firstSuccess (\<lambda>r. exec r pathname q b) (rev after @ c # rev before) = Some m"
      by (subst firstSuccess_append) simp_all
    with h show "matchRoute exec trie pathname q b = Some m"
      by (simp add: eq)
  }
qed

text \<open>
  The routes \<^verbatim>\<open>/a\<close> and \<^verbatim>\<open>/a/b\<close> are both candidates for \<^verbatim>\<open>/a/b\<close>, collected
  in this order: the deeper one wins when both are accepted, the other one when it
  alone is, and none when none is.
\<close>

theorem candidates_evaluated_in_reverse_witness:
  "matchRoute acceptAll (buildTrie exampleParse [routeOf ''/a'', routeOf ''/a/b''])
     ''/a/b'' noQuery [] = Some \<lparr> route = routeOf ''/a/b'', match = () \<rparr>
   \<and> matchRoute rejectAll (buildTrie exampleParse [routeOf ''/a'', routeOf ''/a/b''])
     ''/a/b'' noQuery [] = (None :: unit Result option)
   \<and> matchRoute (\<lambda>r p q b. if r = routeOf ''/a'' then acceptAll r p q b else None)
       (buildTrie exampleParse [routeOf ''/a'', routeOf ''/a/b''])
     ''/a/b'' noQuery [] = Some \<lparr> route = routeOf ''/a'', match = () \<rparr>"
  using
    candidates_evaluated_in_reverse[of acceptAll
      "buildTrie exampleParse [routeOf ''/a'', routeOf ''/a/b'']" "''/a/b''" noQuery "[]"
      "[routeOf ''/a'']" "routeOf ''/a/b''" "[]" "\<lparr> route = routeOf ''/a/b'', match = () \<rparr>"]
    candidates_evaluated_in_reverse[of rejectAll
      "buildTrie exampleParse [routeOf ''/a'', routeOf ''/a/b'']" "''/a/b''" noQuery "[]"
      "[routeOf ''/a'']" "routeOf ''/a/b''" "[]" "\<lparr> route = routeOf ''/a/b'', match = () \<rparr>"]
    candidates_evaluated_in_reverse[of
      "\<lambda>r p q b. if r = routeOf ''/a'' then acceptAll r p q b else None"
      "buildTrie exampleParse [routeOf ''/a'', routeOf ''/a/b'']" "''/a/b''" noQuery "[]"
      "[]" "routeOf ''/a''" "[routeOf ''/a/b'']" "\<lparr> route = routeOf ''/a'', match = () \<rparr>"]
  by (simp add: example_two_candidates acceptAll_def rejectAll_def)

subsection \<open>C4: the result of buildTrie is never null\<close>

text \<open>
  \<^bold>\<open>C4\<close>, as stated, fails: for the empty route set \<^verbatim>\<open>buildTrie\<close> does not return
  null.
\<close>

theorem buildTrie_empty_counterexample:
  "buildTrie exampleParse [] \<noteq> None"
  by (simp add: buildTrie_def)

text \<open>
  \<^bold>\<open>C4\<close>, amended. \<^verbatim>\<open>buildTrie\<close> returns the tree it has made and never null; for
  the empty route set this is the tree without any prefix, and \<^verbatim>\<open>matchRoute\<close> on it
  returns null for every path of plain segments.
\<close>

theorem buildTrie_never_null:
  "buildTrie parsePath routes \<noteq> None
   \<and> buildTrie parsePath [] = Some newPrefixTree
   \<and> (list_all plainSegment (splitPath_of pathname) \<longrightarrow>
        matchRoute exec (buildTrie parsePath []) pathname q b = None)"
proof -
  have "collect (Some (newPrefixTree :: InvariantRoute PrefixTree)) segs = []" for segs
    by (cases segs) (simp_all add: newPrefixTree_def)
  then show ?thesis
    by (simp add: buildTrie_def matchRoute_collect)
qed

text \<open>The empty route set and the path \<^verbatim>\<open>/jira/software\<close>.\<close>

theorem buildTrie_never_null_witness:
  "splitPath_of ''/jira/software'' = [''jira'', ''software'']
   \<and> matchRoute acceptAll (buildTrie exampleParse []) ''/jira/software'' noQuery [] = None"
proof -
  have s: "splitPath_of ''/jira/software'' = [''jira'', ''software'']"
    by (simp add: splitPath_of_def)
  then have p: "list_all plainSegment (splitPath_of ''/jira/software'')"
    by (simp add: plainSegment_def inheritedNames_def)
  from buildTrie_never_null[of exampleParse "[]" "''/jira/software''" acceptAll noQuery "[]"] p
  have "matchRoute acceptAll (buildTrie exampleParse []) ''/jira/software'' noQuery [] = None"
    by blast
  with s show ?thesis by simp
qed

subsection \<open>C5: matchRoute on a null tree\<close>

text \<open>
  \<^bold>\<open>C5\<close>, as stated, fails: with a null tree \<^verbatim>\<open>matchRoute\<close> returns null, the value
  of "no match", although the matcher would accept any route.
\<close>

theorem matchRoute_null_trie_counterexample:
  "matchRoute acceptAll None ''/a/b'' noQuery [] = None"
  by (simp add: matchRoute_def descend.simps)

text \<open>
  \<^bold>\<open>C5\<close>, amended. \<^verbatim>\<open>matchRoute\<close> has no assertion; with a null tree the condition
  of its \<^verbatim>\<open>while\<close> loop is false at once, no candidate is collected, and the result
  is null for every path, query and base path, whatever the external matcher is.
\<close>

theorem matchRoute_null_trie:
  "matchRoute exec None pathname q b = None"
  by (simp add: matchRoute_def descend.simps)

subsection \<open>C6: the insertion key\<close>

text \<open>
  \<^bold>\<open>C6\<close>, as stated, fails: the wildcard of the expanded template is the string
  \<^verbatim>\<open>*\<close>, and \<^verbatim>\<open>takeWhile\<close> keeps strings, so the key of \<^verbatim>\<open>/a/:x/b\<close> is
  \<^verbatim>\<open>a, *, b\<close> where the run of Literal tokens is \<^verbatim>\<open>a\<close>; the route is stored three
  levels down and not under \<^verbatim>\<open>a\<close>.
\<close>

theorem insertion_key_counterexample:
  "stringPrefix exampleParse (routeOf ''/a/:x/b'') = [''a'', ''*'', ''b'']
   \<and> literalRun exampleParse (routeOf ''/a/:x/b'') = [''a'']
   \<and> find_opt (buildTrie exampleParse [routeOf ''/a/:x/b'']) [''a''] = None
   \<and> find_opt (buildTrie exampleParse [routeOf ''/a/:x/b'']) [''a'', ''*'', ''b''] =
       Some [routeOf ''/a/:x/b'']"
  by (simp add: example_simps literalRun_def expandedTokens_def find_opt_def)

text \<open>
  \<^bold>\<open>C6\<close>, amended. The insertion key is the longest leading run of string tokens of
  the expanded template, wildcard stars included, ended only by a token that is not a
  string or by the end. When every route has a non-empty key and the segments of the
  keys are plain, the node at an address of plain segments holds exactly the routes
  with that key, in the order of registration: a route is found at the depth that is
  the length of its key, as often as it is registered, and at no other such address.
\<close>

theorem insertion_key_is_string_run:
  "map Str (stringPrefix parsePath r) = takeWhile isString (expandedTokens parsePath r)
   \<and> ((\<forall>r \<in> set routes. stringPrefix parsePath r \<noteq> [] \<and>
          list_all plainSegment (stringPrefix parsePath r)) \<and>
      list_all plainSegment a \<longrightarrow>
      find_opt (buildTrie parsePath routes) a =
        (if filter (\<lambda>r. stringPrefix parsePath r = a) routes = [] then None
         else Some (filter (\<lambda>r. stringPrefix parsePath r = a) routes)))"
proof (intro conjI impI)
  have "\<forall>x \<in> set (takeWhile isString (expandedTokens parsePath r)). isString x"
    by (auto dest: set_takeWhileD)
  then show "map Str (stringPrefix parsePath r) =
      takeWhile isString (expandedTokens parsePath r)"
    by (simp add: stringPrefix_def takeWhile_arr_eq Str_asStrings)
next
  assume "(\<forall>r \<in> set routes. stringPrefix parsePath r \<noteq> [] \<and>
      list_all plainSegment (stringPrefix parsePath r)) \<and> list_all plainSegment a"
  then have "\<forall>r \<in> set routes. stringPrefix parsePath r \<noteq> []"
    by blast
  then show "find_opt (buildTrie parsePath routes) a =
      (if filter (\<lambda>r. stringPrefix parsePath r = a) routes = [] then None
       else Some (filter (\<lambda>r. stringPrefix parsePath r = a) routes))"
    by (rule find_opt_buildTrie)
qed

theorem insertion_key_is_string_run_witness:
  "find_opt (buildTrie exampleParse [routeOf ''/a/:x/b'', routeOf ''/a/1/c''])
     [''a'', ''*'', ''b''] = Some [routeOf ''/a/:x/b'']
   \<and> find_opt (buildTrie exampleParse [routeOf ''/a/:x/b'', routeOf ''/a/1/c''])
     [''a''] = None
   \<and> map Str (stringPrefix exampleParse (routeOf ''/a/:x/b'')) =
       [Str ''a'', Str ''*'', Str ''b'']"
  using
    insertion_key_is_string_run[of exampleParse "routeOf ''/a/:x/b''"
      "[routeOf ''/a/:x/b'', routeOf ''/a/1/c'']" "[''a'', ''*'', ''b'']"]
    insertion_key_is_string_run[of exampleParse "routeOf ''/a/:x/b''"
      "[routeOf ''/a/:x/b'', routeOf ''/a/1/c'']" "[''a'']"]
  by (simp add: example_keys plainSegment_def inheritedNames_def)

subsection \<open>C7: expandToken\<close>

text \<open>
  \<^bold>\<open>C7\<close>, as stated, fails: \<^verbatim>\<open>slice(1)\<close> discards the first piece of the split
  whatever it is, so the token \<^verbatim>\<open>abc/def\<close> expands to \<^verbatim>\<open>def\<close> alone, where
  discarding a leading empty segment only would keep both pieces.
\<close>

theorem expandToken_counterexample:
  "expandToken (Str ''abc/def'') = [Str ''def'']
   \<and> expandLiteral_spec ''abc/def'' = [Str ''abc'', Str ''def'']
   \<and> expandToken (Str ''abc/def'') \<noteq> expandLiteral_spec ''abc/def''"
  by (simp add: expandLiteral_spec_def)

text \<open>
  \<^bold>\<open>C7\<close>, amended. \<^verbatim>\<open>expandToken\<close> is total. On a string it discards the text
  before the first separator (nothing, when the string starts with the separator, and
  then it does what the specification says) and gives one string token for each piece
  after it; the pieces hold no separator and make up the rest when joined. A string
  without separator expands to nothing. A key with the pattern \<^verbatim>\<open>[^\/]+?\<close> becomes
  the string \<^verbatim>\<open>*\<close>, and any other key is passed on as it is.
\<close>

theorem expandToken_cases:
  "(CHR ''/'' \<notin> set u \<longrightarrow>
      expandToken (Str (u @ CHR ''/'' # s)) = map Str (split s CHR ''/''))
   \<and> (CHR ''/'' \<notin> set u \<longrightarrow> expandToken (Str u) = [])
   \<and> expandToken (Str (CHR ''/'' # s)) = expandLiteral_spec (CHR ''/'' # s)
   \<and> join (split s CHR ''/'') CHR ''/'' = s
   \<and> (\<forall>p \<in> set (split s CHR ''/''). CHR ''/'' \<notin> set p)
   \<and> (pattern k = segmentPattern \<longrightarrow> expandToken (KeyTok k) = [Str ''*''])
   \<and> (pattern k \<noteq> segmentPattern \<longrightarrow> expandToken (KeyTok k) = [KeyTok k])"
  by (simp add: split_before_separator split_without_separator expandLiteral_spec_def
        join_split split_no_separator)

theorem expandToken_cases_witness:
  "expandToken (Str ''/jira/software'') = [Str ''jira'', Str ''software'']
   \<and> expandToken (Str ''abc/def'') = [Str ''def'']
   \<and> expandToken (Str ''.json'') = []
   \<and> expandToken (KeyTok (segmentKey ''x'')) = [Str ''*'']
   \<and> expandToken (KeyTok \<lparr> name = ''id'', pattern = ''[0-9]+'' \<rparr>) =
       [KeyTok \<lparr> name = ''id'', pattern = ''[0-9]+'' \<rparr>]"
  using
    expandToken_cases[of "[]" "''jira/software''" "segmentKey ''x''"]
    expandToken_cases[of "''abc''" "''def''" "\<lparr> name = ''id'', pattern = ''[0-9]+'' \<rparr>"]
    expandToken_cases[of "''.json''" "[]" "segmentKey ''x''"]
  by (simp add: segmentKey_def segmentPattern_def)

subsection \<open>C8: the path without segments\<close>

text \<open>
  \<^bold>\<open>C8\<close>, as stated, fails: the route \<^verbatim>\<open>/:x\<close> is stored under the wildcard key
  at the root and the matcher accepts it, yet for the path \<^verbatim>\<open>/\<close> the result is
  null.
\<close>

theorem empty_path_counterexample:
  "stringPrefix exampleParse (routeOf ''/:x'') = [''*'']
   \<and> find_opt (buildTrie exampleParse [routeOf ''/:x'']) [''*''] = Some [routeOf ''/:x'']
   \<and> splitPath_of ''/'' = []
   \<and> acceptAll (routeOf ''/:x'') ''/'' noQuery [] \<noteq> None
   \<and> matchRoute acceptAll (buildTrie exampleParse [routeOf ''/:x'']) ''/'' noQuery [] = None"
  by (simp add: example_simps find_opt_def acceptAll_def matchRoute_collect)

text \<open>
  \<^bold>\<open>C8\<close>, amended. For a pathname made of separators only (the empty one included)
  the split is empty, the loop body never runs, no candidate is collected, and
  \<^verbatim>\<open>matchRoute\<close> returns null whatever the tree and the external matcher are.
\<close>

theorem empty_path_matches_nothing:
  "(\<forall>x \<in> set pathname. x = CHR ''/'') \<longrightarrow>
     splitPath_of pathname = []
     \<and> descend (splitPath_of pathname) 0 trie [] = []
     \<and> matchRoute exec trie pathname q b = None"
proof
  assume "\<forall>x \<in> set pathname. x = CHR ''/''"
  then have e: "splitPath_of pathname = []"
    by (simp add: splitPath_of_empty)
  have c: "collect trie [] = []"
    by (cases trie) simp_all
  show "splitPath_of pathname = []
     \<and> descend (splitPath_of pathname) 0 trie [] = []
     \<and> matchRoute exec trie pathname q b = None"
    by (simp add: e c descend_collect matchRoute_collect)
qed

theorem empty_path_matches_nothing_witness:
  "matchRoute acceptAll (buildTrie exampleParse [routeOf ''/:x'', routeOf ''/a'']) ''//''
     noQuery [] = None
   \<and> matchRoute acceptAll (buildTrie exampleParse [routeOf ''/:x'', routeOf ''/a'']) []
     noQuery [] = None"
  using
    empty_path_matches_nothing[of "''//''"
      "buildTrie exampleParse [routeOf ''/:x'', routeOf ''/a'']" acceptAll noQuery "[]"]
    empty_path_matches_nothing[of "[]"
      "buildTrie exampleParse [routeOf ''/:x'', routeOf ''/a'']" acceptAll noQuery "[]"]
  by simp

subsection \<open>C9: the route with an empty key\<close>

text \<open>
  \<^bold>\<open>C9.\<close> The code at an input where it departs from the claim. The template
  \<^verbatim>\<open>/:id([0-9]+)\<close> starts with a key that is not the plain segment parameter, so its
  key is empty; \<^verbatim>\<open>add\<close> then reads \<^verbatim>\<open>path[0]\<close> of an empty array and stores the
  route under the segment \<^verbatim>\<open>undefined\<close>, exactly as if that had been its key. The
  route is no candidate for \<^verbatim>\<open>/123\<close>, and it is one for \<^verbatim>\<open>/undefined\<close>.
\<close>

theorem empty_key_stored_under_undefined:
  "add t [] v = add t [''undefined''] v
   \<and> stringPrefix exampleParse (routeOf ''/:id([0-9]+)'') = []
   \<and> find_opt (buildTrie exampleParse [routeOf ''/:id([0-9]+)'']) [''undefined''] =
       Some [routeOf ''/:id([0-9]+)'']
   \<and> descend (splitPath_of ''/123'') 0
       (buildTrie exampleParse [routeOf ''/:id([0-9]+)'']) [] = []
   \<and> matchRoute acceptAll (buildTrie exampleParse [routeOf ''/:id([0-9]+)''])
       ''/123'' noQuery [] = None
   \<and> matchRoute acceptAll (buildTrie exampleParse [routeOf ''/:id([0-9]+)''])
       ''/undefined'' noQuery [] = Some \<lparr> route = routeOf ''/:id([0-9]+)'', match = () \<rparr>"
  by (simp add: example_simps find_opt_def acceptAll_def matchRoute_collect descend_collect
        segmentPattern_def)

subsection \<open>C10: no way back to the wildcard\<close>

text \<open>
  \<^bold>\<open>C10.\<close> The descent never goes back. At any state of the loop, when the current
  tree has a node under the current segment and that segment is not the wildcard key
  itself, the candidates collected from here on are the same whatever stands under
  the wildcard key of that tree: nothing stored below the wildcard edge is collected,
  hence nothing of it is evaluated. For the first segment of a path this is a
  statement about the result of \<^verbatim>\<open>matchRoute\<close>.
\<close>

theorem wildcard_subtree_ignored:
  "i < length sp \<and> prefixes t (sp ! i) = Some n \<and> sp ! i \<noteq> ''*'' \<longrightarrow>
     descend sp i (Some (PrefixTree ((prefixes t)(''*'' := w)))) ps =
       descend sp i (Some t) ps
     \<and> (sp = splitPath_of pathname \<and> i = 0 \<longrightarrow>
          matchRoute exec (Some (PrefixTree ((prefixes t)(''*'' := w)))) pathname q b =
            matchRoute exec (Some t) pathname q b)"
proof
  assume h: "i < length sp \<and> prefixes t (sp ! i) = Some n \<and> sp ! i \<noteq> ''*''"
  have d: "descend sp i (Some (PrefixTree ((prefixes t)(''*'' := w)))) ps' =
      descend sp i (Some t) ps'" for ps'
    using h
    by (simp add: descend.simps[of sp i "Some t" ps']
          descend.simps[of sp i "Some (PrefixTree ((prefixes t)(''*'' := w)))" ps'])
  show "descend sp i (Some (PrefixTree ((prefixes t)(''*'' := w)))) ps =
       descend sp i (Some t) ps
     \<and> (sp = splitPath_of pathname \<and> i = 0 \<longrightarrow>
          matchRoute exec (Some (PrefixTree ((prefixes t)(''*'' := w)))) pathname q b =
            matchRoute exec (Some t) pathname q b)"
    using d by (auto simp: matchRoute_def)
qed

text \<open>
  The root has the edge \<^verbatim>\<open>1\<close> and the wildcard edge, with the route \<^verbatim>\<open>/:x/b\<close>
  below the latter; for the path \<^verbatim>\<open>/1/b\<close> the matcher accepts that route only, and
  the result is null.
\<close>

theorem wildcard_subtree_ignored_witness:
  "matchRoute (\<lambda>r p q b. if r = routeOf ''/:x/b'' then acceptAll r p q b else None)
     (Some (PrefixTree ((\<lambda>_. None)(
        ''1'' \<mapsto> PrefixTreeNode (Some [routeOf ''/1'']) None,
        ''*'' := Some (PrefixTreeNode None (Some (PrefixTree ((\<lambda>_. None)(
                  ''b'' \<mapsto> PrefixTreeNode (Some [routeOf ''/:x/b'']) None)))))))))
     ''/1/b'' noQuery [] = None"
  using wildcard_subtree_ignored[of 0 "[''1'', ''b'']"
      "PrefixTree ((\<lambda>_. None)(''1'' \<mapsto> PrefixTreeNode (Some [routeOf ''/1'']) None))"
      "PrefixTreeNode (Some [routeOf ''/1'']) None"
      "Some (PrefixTreeNode None (Some (PrefixTree ((\<lambda>_. None)(
                  ''b'' \<mapsto> PrefixTreeNode (Some [routeOf ''/:x/b'']) None)))))"
      "[]" "''/1/b''"
      "\<lambda>r p q b. if r = routeOf ''/:x/b'' then acceptAll r p q b else None"
      noQuery "[]"]
  by (simp add: splitPath_of_def matchRoute_collect)

end
